theory Spec2Isabelle
  imports Main "HOL-Library.Multiset" "HOL-Library.Sublist"
begin

section \<open>The RSS aggregator (main.go)\<close>

text \<open>
  A shallow embedding of \<^verbatim>\<open>main.go\<close>. Go strings are byte sequences and are
  modelled as \<^typ>\<open>string\<close> (a list of 8-bit characters). A Go \<^verbatim>\<open>error\<close> built by
  \<^verbatim>\<open>fmt.Errorf\<close> with \<^verbatim>\<open>%v\<close> carries nothing but its message, so an error is
  its message; \<^verbatim>\<open>nil\<close> is \<open>None\<close>, and a function returning \<^verbatim>\<open>(value, error)\<close>
  returns a sum with the error on the left.
\<close>

subsection \<open>Configuration\<close>

text \<open>
  \<^verbatim>\<open>Count\<close> is a Go \<^verbatim>\<open>int\<close>. The program only compares it (with 0 and with a
  length) and uses it as a slice bound, so it is modelled as an unbounded integer.
\<close>

record Config =
  InputFile :: string
  Count :: int
  Mode :: string
  SingleURL :: string
  OutputFile :: string

text \<open>The messages of \<^verbatim>\<open>validateConfig\<close>; \<open>CHR 0x27\<close> is the apostrophe.\<close>

definition msg_mode :: string where
  "msg_mode = ''mode must be 'single' or 'all'' @ [CHR 0x27]"

definition msg_single_url :: string where
  "msg_single_url = ''single-url must be provided when mode is 'single'' @ [CHR 0x27]"

definition msg_input_file :: string where
  "msg_input_file = ''input file must be provided when mode is 'all'' @ [CHR 0x27]"

definition msg_count :: string where
  "msg_count = ''count must be greater than 0''"

text \<open>
  \<^verbatim>\<open>validateConfig\<close>: the mode check, then the check of the field the mode needs
  (the \<^verbatim>\<open>else\<close> branch serves every mode other than \<^verbatim>\<open>single\<close>), then the count.
\<close>

definition validateConfig :: "Config \<Rightarrow> string option" where
  "validateConfig config =
     (if Mode config \<noteq> ''single'' \<and> Mode config \<noteq> ''all'' then Some msg_mode
      else
        (case (if Mode config = ''single''
               then (if SingleURL config = [] then Some msg_single_url else None)
               else (if InputFile config = [] then Some msg_input_file else None)) of
           Some err \<Rightarrow> Some err
         | None \<Rightarrow> if Count config \<le> 0 then Some msg_count else None))"

subsection \<open>Feed entries and feed items\<close>

text \<open>
  A \<^verbatim>\<open>time.Time\<close> is used only through \<^verbatim>\<open>After\<close>, which compares instants: a
  time is modelled as its instant, counted from Go's zero time (the value of an unset
  \<^verbatim>\<open>time.Time\<close> field).
\<close>

type_synonym Time = int

definition zeroTime :: Time where
  "zeroTime = 0"

definition After :: "Time \<Rightarrow> Time \<Rightarrow> bool" where
  "After t u = (u < t)"

text \<open>
  \<^verbatim>\<open>rss.Item\<close> and \<^verbatim>\<open>rss.Feed\<close> of the parsing library, with the fields that
  \<^verbatim>\<open>fetchFeedItems\<close> reads.
\<close>

record rss_Item =
  rss_Title :: string
  rss_Summary :: string
  rss_Content :: string
  rss_Link :: string
  rss_Date :: Time

record rss_Feed =
  rss_Items :: "rss_Item list"

text \<open>
  \<^verbatim>\<open>feeds.Link\<close>, \<^verbatim>\<open>feeds.Item\<close> and \<^verbatim>\<open>feeds.Feed\<close> of the generating library,
  with the fields the program sets; every other field keeps its zero value. The fields
  of the feed carry the prefix \<open>Feed_\<close>, since the item has fields of the same names.
  \<^verbatim>\<open>Content\<close> has the Go type \<^verbatim>\<open>string\<close>, whose zero value is the empty string.
\<close>

record Link =
  Href :: string

record Item =
  Title :: string
  Link :: Link
  Description :: string
  Created :: Time
  Content :: string

record Feed =
  Feed_Title :: string
  Feed_Link :: Link
  Feed_Description :: string
  Feed_Created :: Time
  Items :: "Item list"

subsection \<open>The environment of a run\<close>

text \<open>
  What the program obtains from outside itself:
  \<^item> \<open>os_Open\<close>: the outcome of opening a file for reading, an error or the file; a
    file delivers \<open>contents\<close> and then ends, with the end of file (\<open>None\<close>) or with a
    read error;
  \<^item> \<open>rss_Fetch n url\<close>: the outcome of \<^verbatim>\<open>rss.Fetch(url)\<close> for the \<open>n\<close>-th fetch of
    the run (in mode \<^verbatim>\<open>all\<close> the fetch for the URL at position \<open>n\<close> of the list, in
    mode \<^verbatim>\<open>single\<close> fetch 0), so that two fetches of one URL may differ;
  \<^item> \<open>sort_Slice less xs\<close>: the slice after \<^verbatim>\<open>sort.Slice\<close>, with \<open>less\<close> on the
    elements;
  \<^item> \<open>schedule\<close>: the order in which the goroutines of the fan-out take effect (each
    logs a warning or appends its items under the mutex, after its fetch);
  \<^item> \<open>time_Now\<close>: the clock.
\<close>

record File =
  contents :: string
  read_error :: "string option"

record Env =
  os_Open :: "string \<Rightarrow> string + File"
  rss_Fetch :: "nat \<Rightarrow> string \<Rightarrow> string + rss_Feed"
  sort_Slice :: "(Item \<Rightarrow> Item \<Rightarrow> bool) \<Rightarrow> Item list \<Rightarrow> Item list"
  schedule :: "(nat \<times> string) list \<Rightarrow> (nat \<times> string) list"
  time_Now :: Time

subsection \<open>strings.TrimSpace\<close>

text \<open>
  \<^verbatim>\<open>strings.TrimSpace\<close> removes the leading and the trailing white space of a string,
  as Unicode defines it, read as UTF-8. A white-space rune is decoded at the front (or
  at the back) of a string exactly when the string starts (or ends) with its UTF-8
  encoding; \<open>spaceRunes\<close> lists the encodings of the 25 runes of
  \<^verbatim>\<open>unicode.IsSpace\<close>: U+0009 to U+000D, U+0020, U+0085, U+00A0, U+1680, U+2000
  to U+200A, U+2028, U+2029, U+202F, U+205F and U+3000.
\<close>

definition spaceRunes :: "string list" where
  "spaceRunes =
     [[CHR 0x09], [CHR 0x0A], [CHR 0x0B], [CHR 0x0C], [CHR 0x0D], [CHR 0x20],
      [CHR 0xC2, CHR 0x85], [CHR 0xC2, CHR 0xA0],
      [CHR 0xE1, CHR 0x9A, CHR 0x80],
      [CHR 0xE2, CHR 0x80, CHR 0x80], [CHR 0xE2, CHR 0x80, CHR 0x81],
      [CHR 0xE2, CHR 0x80, CHR 0x82], [CHR 0xE2, CHR 0x80, CHR 0x83],
      [CHR 0xE2, CHR 0x80, CHR 0x84], [CHR 0xE2, CHR 0x80, CHR 0x85],
      [CHR 0xE2, CHR 0x80, CHR 0x86], [CHR 0xE2, CHR 0x80, CHR 0x87],
      [CHR 0xE2, CHR 0x80, CHR 0x88], [CHR 0xE2, CHR 0x80, CHR 0x89],
      [CHR 0xE2, CHR 0x80, CHR 0x8A],
      [CHR 0xE2, CHR 0x80, CHR 0xA8], [CHR 0xE2, CHR 0x80, CHR 0xA9],
      [CHR 0xE2, CHR 0x80, CHR 0xAF],
      [CHR 0xE2, CHR 0x81, CHR 0x9F],
      [CHR 0xE3, CHR 0x80, CHR 0x80]]"

text \<open>The encoding of the white-space rune at the front, and at the back, of a string.\<close>

definition leadingSpace :: "string \<Rightarrow> string option" where
  "leadingSpace s = find (\<lambda>e. prefix e s) spaceRunes"

definition trailingSpace :: "string \<Rightarrow> string option" where
  "trailingSpace s = find (\<lambda>e. suffix e s) spaceRunes"

lemma spaceRunes_nonempty: "e \<in> set spaceRunes \<Longrightarrow> e \<noteq> []"
  by (auto simp: spaceRunes_def)

lemma leadingSpace_shorter:
  assumes "leadingSpace s = Some e"
  shows "length s - length e < length s"
proof -
  from assms have "e \<in> set spaceRunes" and "prefix e s"
    by (auto simp: leadingSpace_def find_Some_iff)
  then have "e \<noteq> []" and "length e \<le> length s"
    by (auto simp: spaceRunes_nonempty prefix_length_le)
  then have "0 < length e" and "length e \<le> length s" by auto
  then show ?thesis by arith
qed

lemma trailingSpace_shorter:
  assumes "trailingSpace s = Some e"
  shows "length s - length e < length s"
proof -
  from assms have "e \<in> set spaceRunes" and "suffix e s"
    by (auto simp: trailingSpace_def find_Some_iff)
  then have "e \<noteq> []" and "length e \<le> length s"
    by (auto simp: spaceRunes_nonempty suffix_length_le)
  then have "0 < length e" and "length e \<le> length s" by auto
  then show ?thesis by arith
qed

function TrimLeft :: "string \<Rightarrow> string" where
  "TrimLeft s =
     (case leadingSpace s of
        None \<Rightarrow> s
      | Some e \<Rightarrow> TrimLeft (drop (length e) s))"
  by pat_completeness auto
termination
  by (relation "measure length") (auto simp: leadingSpace_shorter)

function TrimRight :: "string \<Rightarrow> string" where
  "TrimRight s =
     (case trailingSpace s of
        None \<Rightarrow> s
      | Some e \<Rightarrow> TrimRight (take (length s - length e) s))"
  by pat_completeness auto
termination
  by (relation "measure length") (auto simp: trailingSpace_shorter)

declare TrimLeft.simps [simp del] TrimRight.simps [simp del]

definition TrimSpace :: "string \<Rightarrow> string" where
  "TrimSpace s = TrimRight (TrimLeft s)"

definition HasPrefix :: "string \<Rightarrow> string \<Rightarrow> bool" where
  "HasPrefix s p = prefix p s"

subsection \<open>bufio.Scanner with the line splitter\<close>

text \<open>
  \<^verbatim>\<open>bufio.ScanLines\<close>, the split function of a new scanner: given the buffered data
  and whether the input has ended, it returns how far to advance and the token, a line
  without its end-of-line marker (\<^verbatim>\<open>\n\<close>, or \<^verbatim>\<open>\r\n\<close>: \<open>dropCR\<close>), or no
  token when more data is needed.
\<close>

definition IndexByte :: "string \<Rightarrow> char \<Rightarrow> nat option" where
  "IndexByte b c = (if c \<in> set b then Some (length (takeWhile (\<lambda>x. x \<noteq> c) b)) else None)"

definition dropCR :: "string \<Rightarrow> string" where
  "dropCR data = (if data \<noteq> [] \<and> last data = CHR 0x0D then butlast data else data)"

definition ScanLines :: "string \<Rightarrow> bool \<Rightarrow> nat \<times> string option" where
  "ScanLines data atEOF =
     (if atEOF \<and> data = [] then (0, None)
      else
        (case IndexByte data (CHR 0x0A) of
           Some i \<Rightarrow> (i + 1, Some (dropCR (take i data)))
         | None \<Rightarrow> if atEOF then (length data, Some (dropCR data)) else (0, None)))"

text \<open>
  \<^verbatim>\<open>Scanner.Scan\<close> on the input that is still unread (what the scanner has buffered
  and what the file has yet to deliver). The scanner reads into its buffer, and grows
  it up to \<^verbatim>\<open>MaxScanTokenSize\<close> bytes, until the split function finds a token in the
  buffered data. It learns that the input has ended (the end of the file, or a read
  error) from a read into free space of the buffer, and then calls the split function
  with \<open>atEOF\<close>; this happens when fewer than \<open>maxTokenSize\<close> bytes are unread. When
  the buffer holds \<open>maxTokenSize\<close> bytes and the split function finds no token in them,
  the scan stops with \<^verbatim>\<open>ErrTooLong\<close>. \<open>Stop err\<close> is \<^verbatim>\<open>Scan\<close> returning false, with
  \<open>err\<close> what \<^verbatim>\<open>Scanner.Err\<close> returns afterwards: nothing at the end of the file, the
  read error, or \<^verbatim>\<open>ErrTooLong\<close>.
\<close>

definition maxTokenSize :: nat where
  "maxTokenSize = 64 * 1024"

definition ErrTooLong :: string where
  "ErrTooLong = ''bufio.Scanner: token too long''"

datatype scan = Token string string | Stop "string option"

definition Scan :: "string option \<Rightarrow> string \<Rightarrow> scan" where
  "Scan rerr input =
     (let atEOF = (length input < maxTokenSize) in
      case ScanLines (take maxTokenSize input) atEOF of
        (advance, Some token) \<Rightarrow> Token token (drop advance input)
      | (advance, None) \<Rightarrow> if atEOF then Stop rerr else Stop (Some ErrTooLong))"

lemma maxTokenSize_pos: "0 < maxTokenSize"
  by (simp add: maxTokenSize_def)

lemma Scan_Token_shorter:
  assumes "Scan rerr input = Token tok rest"
  shows "length rest < length input"
proof -
  from assms obtain advance where
    sl: "ScanLines (take maxTokenSize input) (length input < maxTokenSize) = (advance, Some tok)"
    and rest: "rest = drop advance input"
    by (auto simp: Scan_def Let_def split: prod.splits option.splits if_splits)
  from sl have "0 < advance" and "take maxTokenSize input \<noteq> []"
    using maxTokenSize_pos
    by (auto simp: ScanLines_def IndexByte_def split: if_splits option.splits)
  then have "0 < advance" and "input \<noteq> []" by auto
  with rest show ?thesis by simp
qed

subsection \<open>readURLsFromFile\<close>

text \<open>
  The loop \<^verbatim>\<open>for scanner.Scan() { ... }\<close> with the slice \<^verbatim>\<open>urls\<close> it appends to; it
  returns the slice and \<^verbatim>\<open>scanner.Err()\<close>.
\<close>

function scanLoop :: "string option \<Rightarrow> string \<Rightarrow> string list \<Rightarrow> string list \<times> string option" where
  "scanLoop rerr input urls =
     (case Scan rerr input of
        Token tok rest \<Rightarrow>
          (let line = TrimSpace tok in
           if line \<noteq> [] \<and> \<not> HasPrefix line ''#''
           then scanLoop rerr rest (urls @ [line])
           else scanLoop rerr rest urls)
      | Stop err \<Rightarrow> (urls, err))"
  by pat_completeness auto
termination
  by (relation "measure (\<lambda>(rerr, input, urls). length input)")
    (auto simp: Scan_Token_shorter)

declare scanLoop.simps [simp del]

definition readURLsFromFile :: "Env \<Rightarrow> string \<Rightarrow> string + string list" where
  "readURLsFromFile env filename =
     (case os_Open env filename of
        Inl err \<Rightarrow> Inl (''error opening file: '' @ err)
      | Inr file \<Rightarrow>
          (case scanLoop (read_error file) (contents file) [] of
             (urls, Some err) \<Rightarrow> Inl (''error reading file: '' @ err)
           | (urls, None) \<Rightarrow> Inr urls))"

subsection \<open>fetchFeedItems\<close>

text \<open>
  The body of \<^verbatim>\<open>for _, item := range feed.Items\<close>: the struct literal leaves
  \<^verbatim>\<open>Content\<close> at its zero value, the empty string, and the \<^verbatim>\<open>if\<close> assigns it when
  the entry's content is not empty.
\<close>

definition feedItem :: "rss_Item \<Rightarrow> Item" where
  "feedItem item =
     (let feedItem = \<lparr>Title = rss_Title item,
                      Link = \<lparr>Href = rss_Link item\<rparr>,
                      Description = rss_Summary item,
                      Created = rss_Date item,
                      Content = []\<rparr>
      in if rss_Content item \<noteq> [] then feedItem\<lparr>Content := rss_Content item\<rparr>
         else feedItem)"

fun rangeItems :: "rss_Item list \<Rightarrow> Item list \<Rightarrow> Item list" where
  "rangeItems [] items = items"
| "rangeItems (item # rest) items = rangeItems rest (items @ [feedItem item])"

definition fetchFeedItems :: "Env \<Rightarrow> nat \<Rightarrow> string \<Rightarrow> string + Item list" where
  "fetchFeedItems env n url =
     (case rss_Fetch env n url of
        Inl err \<Rightarrow> Inl err
      | Inr feed \<Rightarrow> Inr (rangeItems (rss_Items feed) []))"

subsection \<open>aggregateFeeds\<close>

text \<open>
  A run ends with an error (\<open>Err\<close>, the message), with a panic, or with the feed. Beside
  its result, \<^verbatim>\<open>aggregateFeeds\<close> writes warnings to the log; the log of a run is the list
  of the messages given to \<^verbatim>\<open>log.Printf\<close>.
\<close>

datatype failure = Err string | Panic string

definition warning :: "string \<Rightarrow> string \<Rightarrow> string" where
  "warning url err = ''Warning: failed to fetch feed '' @ url @ '': '' @ err"

text \<open>
  The fan-out: one goroutine for each URL, here with the position of the URL. Each
  fetches, and then either logs its warning or appends its items to \<^verbatim>\<open>allItems\<close>
  under the mutex; \<^verbatim>\<open>wg.Wait()\<close> returns after all of them. The goroutines are run
  here in the order in which these effects take place.
\<close>

fun goroutines :: "Env \<Rightarrow> (nat \<times> string) list \<Rightarrow> string list \<times> Item list \<Rightarrow> string list \<times> Item list" where
  "goroutines env [] (lg, allItems) = (lg, allItems)"
| "goroutines env ((n, url) # rest) (lg, allItems) =
     (case fetchFeedItems env n (TrimSpace url) of
        Inl err \<Rightarrow> goroutines env rest (lg @ [warning url err], allItems)
      | Inr items \<Rightarrow> goroutines env rest (lg, allItems @ items))"

text \<open>The comparison given to \<^verbatim>\<open>sort.Slice\<close>, on the elements.\<close>

definition lessCreated :: "Item \<Rightarrow> Item \<Rightarrow> bool" where
  "lessCreated a b = After (Created a) (Created b)"

text \<open>
  The part of \<^verbatim>\<open>aggregateFeeds\<close> after the fetches: sort, cut to \<^verbatim>\<open>config.Count\<close>
  items (the slice expression \<^verbatim>\<open>allItems[:config.Count]\<close> panics when the count is
  negative), and build the feed.
\<close>

definition sortAndTruncate :: "Env \<Rightarrow> Config \<Rightarrow> Item list \<Rightarrow> failure + Feed" where
  "sortAndTruncate env config allItems =
     (let allItems = sort_Slice env lessCreated allItems in
      case (if int (length allItems) > Count config
            then (if Count config < 0 then Inl (Panic ''slice bounds out of range'')
                  else Inr (take (nat (Count config)) allItems))
            else Inr allItems) of
        Inl p \<Rightarrow> Inl p
      | Inr allItems \<Rightarrow>
          Inr \<lparr>Feed_Title = ''RSS Aggregator Feed'',
               Feed_Link = \<lparr>Href = []\<rparr>,
               Feed_Description = ''Aggregated RSS feed'',
               Feed_Created = time_Now env,
               Items = allItems\<rparr>)"

definition aggregateFeeds :: "Env \<Rightarrow> Config \<Rightarrow> string list \<times> (failure + Feed)" where
  "aggregateFeeds env config =
     (if Mode config = ''single'' then
        (case fetchFeedItems env 0 (SingleURL config) of
           Inl err \<Rightarrow> ([], Inl (Err (''error fetching single feed: '' @ err)))
         | Inr items \<Rightarrow> ([], sortAndTruncate env config items))
      else
        (case readURLsFromFile env (InputFile config) of
           Inl err \<Rightarrow> ([], Inl (Err (''error reading input file: '' @ err)))
         | Inr urls \<Rightarrow>
             (case goroutines env (schedule env (enumerate 0 urls)) ([], []) of
                (lg, allItems) \<Rightarrow> (lg, sortAndTruncate env config allItems))))"

subsection \<open>outputFeed\<close>

text \<open>
  The file system is a map from paths to contents. What the run cannot decide is given
  to \<^verbatim>\<open>outputFeed\<close>: \<open>ToRss\<close>, the serialisation of the generating library, which
  may fail; \<open>create_error\<close>, the error of \<^verbatim>\<open>os.Create\<close> on a path, if any; and
  \<open>write_error\<close>, the error of \<^verbatim>\<open>WriteString\<close>, if any, with the number of bytes
  written before it. \<^verbatim>\<open>os.Create\<close> creates the file or truncates it.
\<close>

record Output =
  ToRss :: "Feed \<Rightarrow> string + string"
  create_error :: "string \<Rightarrow> string option"
  write_error :: "string \<Rightarrow> string \<Rightarrow> (string \<times> nat) option"

type_synonym filesystem = "string \<rightharpoonup> string"

definition outputFeed :: "Output \<Rightarrow> filesystem \<Rightarrow> Feed \<Rightarrow> string \<Rightarrow> filesystem \<times> string option" where
  "outputFeed out fs feed outputFile =
     (case ToRss out feed of
        Inl err \<Rightarrow> (fs, Some (''error generating RSS: '' @ err))
      | Inr rssString \<Rightarrow>
          (case create_error out outputFile of
             Some err \<Rightarrow> (fs, Some (''error creating output file: '' @ err))
           | None \<Rightarrow>
               (let fs = fs(outputFile \<mapsto> []) in
                case write_error out outputFile rssString of
                  Some (err, n) \<Rightarrow>
                    (fs(outputFile \<mapsto> take n rssString),
                     Some (''error writing to output file: '' @ err))
                | None \<Rightarrow> (fs(outputFile \<mapsto> rssString), None))))"

section \<open>What the properties are stated with\<close>

subsection \<open>The library's side of a run\<close>

text \<open>
  \<^verbatim>\<open>sort.Slice\<close> leaves a permutation of the slice in which no later element is less
  than an earlier one; it is not stable, so nothing more is known of it. The goroutines
  of the fan-out take effect in some order of the scheduler's choice.
\<close>

definition sort_Slice_sorts :: "Env \<Rightarrow> bool" where
  "sort_Slice_sorts env =
     (\<forall>xs. mset (sort_Slice env lessCreated xs) = mset xs
         \<and> sorted_wrt (\<lambda>a b. \<not> lessCreated b a) (sort_Slice env lessCreated xs))"

definition schedule_permutes :: "Env \<Rightarrow> bool" where
  "schedule_permutes env = (\<forall>ts. mset (schedule env ts) = mset ts)"

subsection \<open>The items fetched and the warnings due\<close>

text \<open>
  For the goroutines \<open>ts\<close> (each a position and a URL): the items of the fetches that
  succeed and the warnings of the fetches that fail, in the order of \<open>ts\<close>.
\<close>

definition fetchedOf :: "Env \<Rightarrow> (nat \<times> string) list \<Rightarrow> Item list" where
  "fetchedOf env ts =
     concat (map (\<lambda>(n, url). case fetchFeedItems env n (TrimSpace url) of
                                 Inl err \<Rightarrow> [] | Inr items \<Rightarrow> items) ts)"

definition warningsOf :: "Env \<Rightarrow> (nat \<times> string) list \<Rightarrow> string list" where
  "warningsOf env ts =
     concat (map (\<lambda>(n, url). case fetchFeedItems env n (TrimSpace url) of
                                 Inl err \<Rightarrow> [warning url err] | Inr items \<Rightarrow> []) ts)"


subsection \<open>The lines of a file\<close>

text \<open>
  From the specification's words, to be compared with \<^verbatim>\<open>readURLsFromFile\<close>. The
  lines of a text are what stands between its line feeds; a line feed at the very end
  ends the last line and starts no other. A line is taken when, trimmed, it is not empty
  and does not start with \<^verbatim>\<open>#\<close>; the URLs of a text are its lines, trimmed, that
  are taken, in their order.
\<close>

fun linesOf :: "string \<Rightarrow> string list" where
  "linesOf [] = []"
| "linesOf (c # cs) =
     (if c = CHR 0x0A then [] # linesOf cs
      else (case linesOf cs of [] \<Rightarrow> [[c]] | l # ls \<Rightarrow> (c # l) # ls))"

definition spec_included :: "string \<Rightarrow> bool" where
  "spec_included line = (line \<noteq> [] \<and> hd line \<noteq> CHR ''#'')"

definition spec_urls :: "string \<Rightarrow> string list" where
  "spec_urls text = filter spec_included (map TrimSpace (linesOf text))"

subsection \<open>The creation time the specification describes\<close>

text \<open>
  From the specification's words, to be compared with \<^verbatim>\<open>fetchFeedItems\<close>: the
  created time of an item is the publication date of the entry, or the time of the fetch
  when the entry has none (its date is then the zero time).
\<close>

definition spec_created :: "Time \<Rightarrow> rss_Item \<Rightarrow> Time" where
  "spec_created fetchTime item =
     (if rss_Date item = zeroTime then fetchTime else rss_Date item)"

subsection \<open>An example run\<close>

text \<open>
  Insertion sort, which \<^verbatim>\<open>sort.Slice\<close> itself uses on short slices, is the sort of
  the example; its scheduler lets the goroutines take effect in reverse order.
\<close>

fun insertBy :: "('a \<Rightarrow> 'a \<Rightarrow> bool) \<Rightarrow> 'a \<Rightarrow> 'a list \<Rightarrow> 'a list" where
  "insertBy lt x [] = [x]"
| "insertBy lt x (y # ys) = (if lt y x then y # insertBy lt x ys else x # y # ys)"

fun insertionSort :: "('a \<Rightarrow> 'a \<Rightarrow> bool) \<Rightarrow> 'a list \<Rightarrow> 'a list" where
  "insertionSort lt [] = []"
| "insertionSort lt (x # xs) = insertBy lt x (insertionSort lt xs)"

definition entryA1 :: rss_Item where
  "entryA1 = \<lparr>rss_Title = ''A1'', rss_Summary = ''first of A'', rss_Content = [],
              rss_Link = ''http://a.example/1'', rss_Date = 20200101\<rparr>"

definition entryA2 :: rss_Item where
  "entryA2 = \<lparr>rss_Title = ''A2'', rss_Summary = ''second of A'', rss_Content = ''<p>A2</p>'',
              rss_Link = ''http://a.example/2'', rss_Date = 20200103\<rparr>"

definition entryB1 :: rss_Item where
  "entryB1 = \<lparr>rss_Title = ''B1'', rss_Summary = ''first of B'', rss_Content = [],
              rss_Link = ''http://b.example/1'', rss_Date = 20200102\<rparr>"

definition entryUndated :: rss_Item where
  "entryUndated = \<lparr>rss_Title = ''U'', rss_Summary = ''no date'', rss_Content = [],
                   rss_Link = ''http://u.example/1'', rss_Date = zeroTime\<rparr>"

definition feedsFile :: string where
  "feedsFile = ''# Test feeds'' @ [CHR 0x0A] @ ''  http://a.example/rss '' @ [CHR 0x0D, CHR 0x0A]
     @ [CHR 0x0A] @ ''http://down.example/rss'' @ [CHR 0x0A] @ ''http://b.example/rss''"

definition exampleEnv :: Env where
  "exampleEnv =
     \<lparr>os_Open = (\<lambda>name. if name = ''feeds.txt''
                         then Inr \<lparr>contents = feedsFile, read_error = None\<rparr>
                         else if name = ''long.txt''
                         then Inr \<lparr>contents = replicate (64 * 1024) (CHR ''a''), read_error = None\<rparr>
                         else Inl ''no such file or directory''),
      rss_Fetch = (\<lambda>n url. if url = ''http://a.example/rss''
                            then Inr \<lparr>rss_Items = [entryA1, entryA2]\<rparr>
                            else if url = ''http://b.example/rss''
                            then Inr \<lparr>rss_Items = [entryB1]\<rparr>
                            else if url = ''http://u.example/rss''
                            then Inr \<lparr>rss_Items = [entryUndated]\<rparr>
                            else Inl ''connection refused''),
      sort_Slice = insertionSort,
      schedule = rev,
      time_Now = 20200201\<rparr>"

definition exampleConfig :: "string \<Rightarrow> string \<Rightarrow> int \<Rightarrow> Config" where
  "exampleConfig mode url k =
     \<lparr>InputFile = ''feeds.txt'', Count = k, Mode = mode, SingleURL = url,
      OutputFile = ''aggregated.xml''\<rparr>"

definition exampleOutput :: Output where
  "exampleOutput =
     \<lparr>ToRss = (\<lambda>feed. if Items feed = [] then Inl ''no items'' else Inr ''<rss></rss>''),
      create_error = (\<lambda>path. None),
      write_error = (\<lambda>path text. None)\<rparr>"

definition emptyFeed :: Feed where
  "emptyFeed = \<lparr>Feed_Title = ''RSS Aggregator Feed'', Feed_Link = \<lparr>Href = []\<rparr>,
                 Feed_Description = ''Aggregated RSS feed'', Feed_Created = 20200201,
                 Items = []\<rparr>"

text \<open>The items of the example, and the feed and the log of its run in mode \<^verbatim>\<open>all\<close>.\<close>

definition itemA1 :: Item where
  "itemA1 = \<lparr>Title = ''A1'', Link = \<lparr>Href = ''http://a.example/1''\<rparr>,
             Description = ''first of A'', Created = 20200101, Content = []\<rparr>"

definition itemA2 :: Item where
  "itemA2 = \<lparr>Title = ''A2'', Link = \<lparr>Href = ''http://a.example/2''\<rparr>,
             Description = ''second of A'', Created = 20200103, Content = ''<p>A2</p>''\<rparr>"

definition itemB1 :: Item where
  "itemB1 = \<lparr>Title = ''B1'', Link = \<lparr>Href = ''http://b.example/1''\<rparr>,
             Description = ''first of B'', Created = 20200102, Content = []\<rparr>"

definition exampleFeed :: "int \<Rightarrow> Feed" where
  "exampleFeed k = \<lparr>Feed_Title = ''RSS Aggregator Feed'', Feed_Link = \<lparr>Href = []\<rparr>,
       Feed_Description = ''Aggregated RSS feed'', Feed_Created = 20200201,
       Items = take (nat k) [itemA2, itemB1, itemA1]\<rparr>"

definition exampleLog :: "string list" where
  "exampleLog = [''Warning: failed to fetch feed http://down.example/rss: connection refused'']"

section \<open>Properties\<close>

subsection \<open>Configuration validation\<close>

text \<open>
  Claim C6. \<^verbatim>\<open>validateConfig\<close> rejects with the stated messages: a mode that is
  neither \<^verbatim>\<open>single\<close> nor \<^verbatim>\<open>all\<close> gives an error containing
  \<^verbatim>\<open>mode must be 'single' or 'all'\<close>; mode \<^verbatim>\<open>all\<close> with an empty input file gives
  an error containing \<^verbatim>\<open>input file must be provided\<close>; a count of zero or less, with
  a valid mode and the field of that mode present, gives an error containing
  \<^verbatim>\<open>count must be greater than 0\<close>.
\<close>

theorem validateConfig_messages:
  "(Mode c \<noteq> ''single'' \<and> Mode c \<noteq> ''all'' \<longrightarrow>
      (\<exists>msg. validateConfig c = Some msg
         \<and> sublist (''mode must be 'single' or 'all'' @ [CHR 0x27]) msg))
   \<and> (Mode c = ''all'' \<and> InputFile c = [] \<longrightarrow>
      (\<exists>msg. validateConfig c = Some msg \<and> sublist ''input file must be provided'' msg))
   \<and> ((Mode c = ''single'' \<and> SingleURL c \<noteq> [] \<or> Mode c = ''all'' \<and> InputFile c \<noteq> [])
        \<and> Count c \<le> 0 \<longrightarrow>
      (\<exists>msg. validateConfig c = Some msg \<and> sublist ''count must be greater than 0'' msg))"
proof (intro conjI impI)
  assume "Mode c \<noteq> ''single'' \<and> Mode c \<noteq> ''all''"
  then have "validateConfig c = Some msg_mode"
    by (simp add: validateConfig_def)
  then show "\<exists>msg. validateConfig c = Some msg
      \<and> sublist (''mode must be 'single' or 'all'' @ [CHR 0x27]) msg"
    by (simp add: msg_mode_def)
next
  assume "Mode c = ''all'' \<and> InputFile c = []"
  then have "validateConfig c = Some msg_input_file"
    by (simp add: validateConfig_def)
  moreover have "sublist ''input file must be provided'' msg_input_file"
    unfolding msg_input_file_def by (rule prefix_imp_sublist) simp
  ultimately show "\<exists>msg. validateConfig c = Some msg
      \<and> sublist ''input file must be provided'' msg"
    by simp
next
  assume "(Mode c = ''single'' \<and> SingleURL c \<noteq> [] \<or> Mode c = ''all'' \<and> InputFile c \<noteq> [])
      \<and> Count c \<le> 0"
  then have "validateConfig c = Some msg_count"
    by (auto simp: validateConfig_def)
  then show "\<exists>msg. validateConfig c = Some msg
      \<and> sublist ''count must be greater than 0'' msg"
    by (simp add: msg_count_def)
qed

theorem validateConfig_messages_witness:
  "(\<exists>msg. validateConfig \<lparr>InputFile = ''feeds.txt'', Count = 10, Mode = ''bogus'',
                SingleURL = [], OutputFile = ''aggregated.xml''\<rparr> = Some msg
      \<and> sublist (''mode must be 'single' or 'all'' @ [CHR 0x27]) msg)
   \<and> (\<exists>msg. validateConfig \<lparr>InputFile = [], Count = 10, Mode = ''all'',
                SingleURL = [], OutputFile = ''aggregated.xml''\<rparr> = Some msg
      \<and> sublist ''input file must be provided'' msg)
   \<and> (\<exists>msg. validateConfig \<lparr>InputFile = ''feeds.txt'', Count = 0, Mode = ''all'',
                SingleURL = [], OutputFile = ''aggregated.xml''\<rparr> = Some msg
      \<and> sublist ''count must be greater than 0'' msg)
   \<and> (\<exists>msg. validateConfig \<lparr>InputFile = [], Count = - 5, Mode = ''single'',
                SingleURL = ''http://example.com/rss'', OutputFile = ''aggregated.xml''\<rparr> = Some msg
      \<and> sublist ''count must be greater than 0'' msg)"
  using
    validateConfig_messages [of "\<lparr>InputFile = ''feeds.txt'', Count = 10, Mode = ''bogus'',
                SingleURL = [], OutputFile = ''aggregated.xml''\<rparr>"]
    validateConfig_messages [of "\<lparr>InputFile = [], Count = 10, Mode = ''all'',
                SingleURL = [], OutputFile = ''aggregated.xml''\<rparr>"]
    validateConfig_messages [of "\<lparr>InputFile = ''feeds.txt'', Count = 0, Mode = ''all'',
                SingleURL = [], OutputFile = ''aggregated.xml''\<rparr>"]
    validateConfig_messages [of "\<lparr>InputFile = [], Count = - 5, Mode = ''single'',
                SingleURL = ''http://example.com/rss'', OutputFile = ''aggregated.xml''\<rparr>"]
  by simp

text \<open>
  Claim C9. \<^verbatim>\<open>validateConfig\<close> accepts exactly when the mode is \<^verbatim>\<open>single\<close> or
  \<^verbatim>\<open>all\<close>, the field of that mode is not empty and the count is positive; the
  field of the other mode is not inspected (the result is the same whatever it holds),
  so a \<^verbatim>\<open>single\<close> configuration with an empty input file and an \<^verbatim>\<open>all\<close>
  configuration with an empty URL are accepted.
\<close>

theorem validateConfig_accepts_iff:
  "(validateConfig c = None \<longleftrightarrow>
      (Mode c = ''single'' \<and> SingleURL c \<noteq> [] \<or> Mode c = ''all'' \<and> InputFile c \<noteq> [])
      \<and> 0 < Count c)
   \<and> (Mode c = ''single'' \<longrightarrow> validateConfig (c\<lparr>InputFile := f\<rparr>) = validateConfig c)
   \<and> (Mode c = ''all'' \<longrightarrow> validateConfig (c\<lparr>SingleURL := u\<rparr>) = validateConfig c)"
  by (auto simp: validateConfig_def split: option.splits if_splits)

theorem validateConfig_accepts_iff_witness:
  "validateConfig \<lparr>InputFile = [], Count = 5, Mode = ''single'',
      SingleURL = ''http://example.com/rss'', OutputFile = ''output.xml''\<rparr> = None
   \<and> validateConfig \<lparr>InputFile = ''test.txt'', Count = 10, Mode = ''all'',
      SingleURL = [], OutputFile = ''output.xml''\<rparr> = None
   \<and> validateConfig \<lparr>InputFile = ''other.txt'', Count = 5, Mode = ''single'',
      SingleURL = ''http://example.com/rss'', OutputFile = ''output.xml''\<rparr> = None
   \<and> validateConfig \<lparr>InputFile = ''test.txt'', Count = 10, Mode = ''all'',
      SingleURL = ''http://example.com/rss'', OutputFile = ''output.xml''\<rparr> = None"
  using
    validateConfig_accepts_iff [where c = "\<lparr>InputFile = [], Count = 5, Mode = ''single'',
      SingleURL = ''http://example.com/rss'', OutputFile = ''output.xml''\<rparr>"
      and f = "''other.txt''"]
    validateConfig_accepts_iff [where c = "\<lparr>InputFile = ''test.txt'', Count = 10, Mode = ''all'',
      SingleURL = [], OutputFile = ''output.xml''\<rparr>"
      and u = "''http://example.com/rss''"]
  by simp

subsection \<open>Fetching one feed\<close>

text \<open>The loop of \<^verbatim>\<open>fetchFeedItems\<close> maps the entries, in their order.\<close>

lemma rangeItems_map: "rangeItems entries items = items @ map feedItem entries"
  by (induction entries arbitrary: items) auto

lemma fetchFeedItems_map:
  "rss_Fetch env n url = Inr feed \<Longrightarrow> fetchFeedItems env n url = Inr (map feedItem (rss_Items feed))"
  by (simp add: fetchFeedItems_def rangeItems_map)

lemma fetchFeedItems_error:
  "rss_Fetch env n url = Inl err \<Longrightarrow> fetchFeedItems env n url = Inl err"
  by (simp add: fetchFeedItems_def)

text \<open>
  Claim C8, as amended. For a feed fetched and parsed, \<^verbatim>\<open>fetchFeedItems\<close> returns one
  item for each entry, in the order of the entries, with the title, the link, the
  description (the entry's summary) and the created time of the entry: the created time
  is the entry's date as the parser delivers it, and \<^verbatim>\<open>fetchFeedItems\<close> applies no
  fallback of its own.
\<close>

theorem fetchFeedItems_entries:
  assumes "rss_Fetch env n url = Inr feed"
  shows "\<exists>items. fetchFeedItems env n url = Inr items
           \<and> length items = length (rss_Items feed)
           \<and> (\<forall>i < length items.
                 Title (items ! i) = rss_Title (rss_Items feed ! i)
               \<and> Href (Link (items ! i)) = rss_Link (rss_Items feed ! i)
               \<and> Description (items ! i) = rss_Summary (rss_Items feed ! i)
               \<and> Created (items ! i) = rss_Date (rss_Items feed ! i))"
proof -
  have "Title (feedItem item) = rss_Title item \<and> Href (Link (feedItem item)) = rss_Link item
      \<and> Description (feedItem item) = rss_Summary item \<and> Created (feedItem item) = rss_Date item"
    for item
    by (simp add: feedItem_def Let_def)
  with fetchFeedItems_map [OF assms] show ?thesis by simp
qed

theorem fetchFeedItems_entries_witness:
  "rss_Fetch exampleEnv 0 ''http://a.example/rss'' = Inr \<lparr>rss_Items = [entryA1, entryA2]\<rparr>
   \<and> (\<exists>items. fetchFeedItems exampleEnv 0 ''http://a.example/rss'' = Inr items
          \<and> length items = 2
          \<and> Title (items ! 0) = ''A1'' \<and> Created (items ! 0) = 20200101
          \<and> Title (items ! 1) = ''A2'' \<and> Created (items ! 1) = 20200103)"
proof -
  have f: "rss_Fetch exampleEnv 0 ''http://a.example/rss'' = Inr \<lparr>rss_Items = [entryA1, entryA2]\<rparr>"
    by (simp add: exampleEnv_def)
  from fetchFeedItems_entries [OF f] obtain items where
    "fetchFeedItems exampleEnv 0 ''http://a.example/rss'' = Inr items"
    "length items = 2"
    "\<forall>i < length items.
        Title (items ! i) = rss_Title ([entryA1, entryA2] ! i)
      \<and> Created (items ! i) = rss_Date ([entryA1, entryA2] ! i)"
    by auto
  then have "fetchFeedItems exampleEnv 0 ''http://a.example/rss'' = Inr items
      \<and> length items = 2
      \<and> Title (items ! 0) = ''A1'' \<and> Created (items ! 0) = 20200101
      \<and> Title (items ! 1) = ''A2'' \<and> Created (items ! 1) = 20200103"
    by (simp add: entryA1_def entryA2_def)
  with f show ?thesis by blast
qed

text \<open>
  Claim C8 as stated has the created time fall back to the time of the fetch when the
  entry has no publication date. For an entry whose date is the zero time the item's
  created time is the zero time, not the time of the fetch.
\<close>

theorem fetchFeedItems_created_counterexample:
  "rss_Date entryUndated = zeroTime
   \<and> fetchFeedItems exampleEnv 0 ''http://u.example/rss''
       = Inr [\<lparr>Title = ''U'', Link = \<lparr>Href = ''http://u.example/1''\<rparr>,
               Description = ''no date'', Created = zeroTime, Content = []\<rparr>]
   \<and> spec_created (time_Now exampleEnv) entryUndated = 20200201
   \<and> zeroTime \<noteq> spec_created (time_Now exampleEnv) entryUndated"
  by (simp add: fetchFeedItems_def exampleEnv_def entryUndated_def feedItem_def
      spec_created_def zeroTime_def)

text \<open>
  Claim C7, as amended. The content of an item is the content of its entry: it is
  assigned when the entry's content is not empty, and is otherwise the zero value of
  its type, the empty string, which is also the entry's content then. The item has no
  state in which the content is absent.
\<close>

theorem fetchFeedItems_content:
  assumes "rss_Fetch env n url = Inr feed"
  shows "\<exists>items. fetchFeedItems env n url = Inr items
           \<and> map Content items = map rss_Content (rss_Items feed)"
proof -
  have "Content (feedItem item) = rss_Content item" for item
    by (simp add: feedItem_def Let_def)
  then have "map Content (map feedItem (rss_Items feed)) = map rss_Content (rss_Items feed)"
    by simp
  with fetchFeedItems_map [OF assms] show ?thesis by blast
qed

theorem fetchFeedItems_content_witness:
  "rss_Fetch exampleEnv 0 ''http://a.example/rss'' = Inr \<lparr>rss_Items = [entryA1, entryA2]\<rparr>
   \<and> (\<exists>items. fetchFeedItems exampleEnv 0 ''http://a.example/rss'' = Inr items
          \<and> map Content items = [[], ''<p>A2</p>''])"
proof -
  have f: "rss_Fetch exampleEnv 0 ''http://a.example/rss'' = Inr \<lparr>rss_Items = [entryA1, entryA2]\<rparr>"
    by (simp add: exampleEnv_def)
  from fetchFeedItems_content [OF f] show ?thesis
    using f by (simp add: entryA1_def entryA2_def)
qed

text \<open>
  Claim C7 as stated has the content left absent, not the empty string, when the entry
  supplies none. The item of such an entry has the empty string as its content.
\<close>

theorem fetchFeedItems_content_counterexample:
  "rss_Content entryB1 = []
   \<and> fetchFeedItems exampleEnv 0 ''http://b.example/rss''
       = Inr [\<lparr>Title = ''B1'', Link = \<lparr>Href = ''http://b.example/1''\<rparr>,
               Description = ''first of B'', Created = 20200102, Content = []\<rparr>]"
  by (simp add: fetchFeedItems_def exampleEnv_def entryB1_def feedItem_def)

subsection \<open>Single mode\<close>

text \<open>
  Claim C4. In mode \<^verbatim>\<open>single\<close>, when the fetch of the URL fails, \<^verbatim>\<open>aggregateFeeds\<close>
  returns an error, made from the error of the fetch, and no feed.
\<close>

theorem aggregateFeeds_single_fetch_error:
  assumes "Mode c = ''single''" and "rss_Fetch env 0 (SingleURL c) = Inl err"
  shows "aggregateFeeds env c = ([], Inl (Err (''error fetching single feed: '' @ err)))"
  using assms by (simp add: aggregateFeeds_def fetchFeedItems_error)

theorem aggregateFeeds_single_fetch_error_witness:
  "Mode (exampleConfig ''single'' ''http://down.example/rss'' 5) = ''single''
   \<and> rss_Fetch exampleEnv 0 (SingleURL (exampleConfig ''single'' ''http://down.example/rss'' 5))
       = Inl ''connection refused''
   \<and> aggregateFeeds exampleEnv (exampleConfig ''single'' ''http://down.example/rss'' 5)
       = ([], Inl (Err ''error fetching single feed: connection refused''))"
proof -
  have m: "Mode (exampleConfig ''single'' ''http://down.example/rss'' 5) = ''single''"
    by (simp add: exampleConfig_def)
  have f: "rss_Fetch exampleEnv 0 (SingleURL (exampleConfig ''single'' ''http://down.example/rss'' 5))
      = Inl ''connection refused''"
    by (simp add: exampleConfig_def exampleEnv_def)
  from aggregateFeeds_single_fetch_error [OF m f] m f show ?thesis by simp
qed

subsection \<open>Writing the feed\<close>

text \<open>
  Claim C10. When the serialisation of the feed fails, \<^verbatim>\<open>outputFeed\<close> returns an
  error and leaves the file system as it was: the output file is neither created nor
  truncated.
\<close>

theorem outputFeed_serialization_error:
  assumes "ToRss out feed = Inl err"
  shows "outputFeed out fs feed outputFile = (fs, Some (''error generating RSS: '' @ err))"
  using assms by (simp add: outputFeed_def)

theorem outputFeed_serialization_error_witness:
  "ToRss exampleOutput emptyFeed = Inl ''no items''
   \<and> outputFeed exampleOutput [''aggregated.xml'' \<mapsto> ''<old/>''] emptyFeed ''aggregated.xml''
       = ([''aggregated.xml'' \<mapsto> ''<old/>''], Some ''error generating RSS: no items'')"
proof -
  have t: "ToRss exampleOutput emptyFeed = Inl ''no items''"
    by (simp add: exampleOutput_def emptyFeed_def)
  from outputFeed_serialization_error [OF t] t show ?thesis by simp
qed

subsection \<open>Reading the list of URLs\<close>

text \<open>
  The scanner returns the lines of the input one by one, each without its line feed
  and without a carriage return before it, as long as each line is shorter than the
  buffer; a line of \<open>maxTokenSize\<close> bytes or more stops it with \<^verbatim>\<open>ErrTooLong\<close>.
\<close>

lemma linesOf_first:
  "input \<noteq> [] \<Longrightarrow>
   linesOf input = takeWhile (\<lambda>c. c \<noteq> CHR 0x0A) input
     # linesOf (drop (Suc (length (takeWhile (\<lambda>c. c \<noteq> CHR 0x0A) input))) input)"
proof (induction input)
  case Nil
  then show ?case by simp
next
  case (Cons c cs)
  show ?case
  proof (cases "cs = []")
    case True
    then show ?thesis by simp
  next
    case False
    with Cons.IH show ?thesis by simp
  qed
qed

lemma Scan_Nil: "Scan rerr [] = Stop rerr"
  by (simp add: Scan_def ScanLines_def maxTokenSize_def)

lemma Scan_line:
  assumes "input \<noteq> []"
    and short: "length (takeWhile (\<lambda>c. c \<noteq> CHR 0x0A) input) < maxTokenSize"
  shows "Scan rerr input = Token (dropCR (takeWhile (\<lambda>c. c \<noteq> CHR 0x0A) input))
           (drop (Suc (length (takeWhile (\<lambda>c. c \<noteq> CHR 0x0A) input))) input)"
proof (cases "CHR 0x0A \<in> set input")
  case True
  then obtain l rest where input: "input = l @ CHR 0x0A # rest" and l: "CHR 0x0A \<notin> set l"
    by (auto dest: split_list_first)
  from l have tw: "takeWhile (\<lambda>c. c \<noteq> CHR 0x0A) (l @ CHR 0x0A # ys) = l" for ys
    by (induction l) auto
  from short input tw have len: "length l < maxTokenSize" by simp
  then have tk: "take maxTokenSize input = l @ CHR 0x0A # take (maxTokenSize - Suc (length l)) rest"
    by (simp add: input take_Cons')
  have ib: "IndexByte (take maxTokenSize input) (CHR 0x0A) = Some (length l)"
    unfolding tk IndexByte_def using tw by simp
  have "ScanLines (take maxTokenSize input) b = (Suc (length l), Some (dropCR l))" for b
    unfolding ScanLines_def ib by (simp add: tk)
  then show ?thesis
    by (simp add: Scan_def Let_def) (simp add: input tw)
next
  case False
  then have tw: "takeWhile (\<lambda>c. c \<noteq> CHR 0x0A) input = input"
    by (auto simp: takeWhile_eq_all_conv)
  with short have len: "length input < maxTokenSize" by simp
  then have tk: "take maxTokenSize input = input" by simp
  from False have ib: "IndexByte input (CHR 0x0A) = None"
    by (simp add: IndexByte_def)
  from assms(1) len ib have "ScanLines input True = (length input, Some (dropCR input))"
    by (simp add: ScanLines_def)
  with len show ?thesis
    by (simp add: Scan_def Let_def tk tw)
qed

lemma Scan_long:
  assumes long: "maxTokenSize \<le> length (takeWhile (\<lambda>c. c \<noteq> CHR 0x0A) input)"
  shows "Scan rerr input = Stop (Some ErrTooLong)"
proof -
  let ?l = "takeWhile (\<lambda>c. c \<noteq> CHR 0x0A) input"
  have "length ?l \<le> length input" by (rule length_takeWhile_le)
  with long have len: "\<not> length input < maxTokenSize" by simp
  have "take maxTokenSize (?l @ ys) = take maxTokenSize ?l" for ys
    using long by simp
  from this [of "dropWhile (\<lambda>c. c \<noteq> CHR 0x0A) input"]
  have "take maxTokenSize input = take maxTokenSize ?l"
    by simp
  then have "set (take maxTokenSize input) \<subseteq> set ?l"
    by (simp add: set_take_subset)
  then have "CHR 0x0A \<notin> set (take maxTokenSize input)"
    by (auto dest: set_takeWhileD)
  then have "IndexByte (take maxTokenSize input) (CHR 0x0A) = None"
    by (simp add: IndexByte_def)
  then have "ScanLines (take maxTokenSize input) False = (0, None)"
    by (simp add: ScanLines_def)
  with len show ?thesis
    by (simp add: Scan_def Let_def)
qed

lemma spec_included_code: "(line \<noteq> [] \<and> \<not> HasPrefix line ''#'') = spec_included line"
  by (cases line) (auto simp: HasPrefix_def spec_included_def)

lemma scanLoop_lines:
  assumes "\<forall>l \<in> set (linesOf input). length l < maxTokenSize"
  shows "scanLoop rerr input urls
    = (urls @ filter spec_included (map (\<lambda>l. TrimSpace (dropCR l)) (linesOf input)), rerr)"
  using assms
proof (induction input arbitrary: urls rule: length_induct)
  case (1 input)
  show ?case
  proof (cases "input = []")
    case True
    then show ?thesis by (simp add: scanLoop.simps Scan_Nil)
  next
    case False
    let ?l = "takeWhile (\<lambda>c. c \<noteq> CHR 0x0A) input"
    let ?rest = "drop (Suc (length ?l)) input"
    from False have lines: "linesOf input = ?l # linesOf ?rest" by (rule linesOf_first)
    with "1.prems" have short: "length ?l < maxTokenSize"
      and rest: "\<forall>l \<in> set (linesOf ?rest). length l < maxTokenSize"
      by auto
    from False have "length ?rest < length input" by simp
    with "1.IH" rest have IH: "scanLoop rerr ?rest us
      = (us @ filter spec_included (map (\<lambda>l. TrimSpace (dropCR l)) (linesOf ?rest)), rerr)" for us
      by blast
    have sc: "Scan rerr input = Token (dropCR ?l) ?rest"
      using False short by (rule Scan_line)
    show ?thesis
      by (subst scanLoop.simps) (simp add: sc Let_def spec_included_code IH lines)
  qed
qed

lemma scanLoop_long:
  assumes "\<exists>l \<in> set (linesOf input). maxTokenSize \<le> length l"
  shows "snd (scanLoop rerr input urls) = Some ErrTooLong"
  using assms
proof (induction input arbitrary: urls rule: length_induct)
  case (1 input)
  from "1.prems" have ne: "input \<noteq> []" by auto
  let ?l = "takeWhile (\<lambda>c. c \<noteq> CHR 0x0A) input"
  let ?rest = "drop (Suc (length ?l)) input"
  from ne have lines: "linesOf input = ?l # linesOf ?rest" by (rule linesOf_first)
  show ?case
  proof (cases "maxTokenSize \<le> length ?l")
    case True
    then have "Scan rerr input = Stop (Some ErrTooLong)" by (rule Scan_long)
    then show ?thesis by (subst scanLoop.simps) simp
  next
    case False
    then have short: "length ?l < maxTokenSize" by simp
    with "1.prems" lines have rest: "\<exists>l \<in> set (linesOf ?rest). maxTokenSize \<le> length l"
      by auto
    from ne have "length ?rest < length input" by simp
    with "1.IH" rest have IH: "snd (scanLoop rerr ?rest us) = Some ErrTooLong" for us
      by blast
    have sc: "Scan rerr input = Token (dropCR ?l) ?rest"
      using ne short by (rule Scan_line)
    show ?thesis
      by (subst scanLoop.simps) (simp add: sc Let_def IH)
  qed
qed

text \<open>
  A carriage return at the end of a line is white space: trimming the line with it and
  without it gives the same.
\<close>

lemma find_eq: "(\<And>x. x \<in> set xs \<Longrightarrow> P x = Q x) \<Longrightarrow> find P xs = find Q xs"
  by (induction xs) auto

lemma spaceRunes_no_CR_end:
  "e \<in> set spaceRunes \<Longrightarrow> e \<noteq> s @ [CHR 0x0D] \<or> s = []"
proof -
  have "\<forall>e \<in> set spaceRunes. last e = CHR 0x0D \<longrightarrow> length e < 2"
    by (simp add: spaceRunes_def)
  moreover have "last (s @ [CHR 0x0D]) = CHR 0x0D" by simp
  moreover have "s \<noteq> [] \<Longrightarrow> \<not> length (s @ [CHR 0x0D]) < 2" by (cases s) auto
  ultimately show "e \<in> set spaceRunes \<Longrightarrow> e \<noteq> s @ [CHR 0x0D] \<or> s = []"
    by metis
qed

lemma leadingSpace_CR:
  assumes "s \<noteq> []"
  shows "leadingSpace (s @ [CHR 0x0D]) = leadingSpace s"
  unfolding leadingSpace_def
proof (rule find_eq)
  fix e assume "e \<in> set spaceRunes"
  with assms have "e \<noteq> s @ [CHR 0x0D]" using spaceRunes_no_CR_end by blast
  then show "prefix e (s @ [CHR 0x0D]) = prefix e s" by (simp add: prefix_snoc)
qed

lemma leadingSpace_Nil: "leadingSpace [] = None"
  by (simp add: leadingSpace_def spaceRunes_def)

lemma trailingSpace_Nil: "trailingSpace [] = None"
  by (simp add: trailingSpace_def spaceRunes_def)

lemma TrimLeft_Nil: "TrimLeft [] = []"
  by (simp add: TrimLeft.simps leadingSpace_Nil)

lemma TrimRight_Nil: "TrimRight [] = []"
  by (simp add: TrimRight.simps trailingSpace_Nil)

lemma leadingSpace_prefix: "leadingSpace s = Some e \<Longrightarrow> e \<in> set spaceRunes \<and> prefix e s"
  by (auto simp: leadingSpace_def find_Some_iff)

lemma TrimLeft_CR:
  "TrimLeft (s @ [CHR 0x0D]) = (if TrimLeft s = [] then [] else TrimLeft s @ [CHR 0x0D])"
proof (induction s rule: TrimLeft.induct)
  case (1 s)
  show ?case
  proof (cases "s = []")
    case True
    have "leadingSpace [CHR 0x0D] = Some [CHR 0x0D]"
      by (simp add: leadingSpace_def spaceRunes_def)
    then have "TrimLeft [CHR 0x0D] = []"
      by (subst TrimLeft.simps) (simp add: TrimLeft_Nil)
    with True show ?thesis by (simp add: TrimLeft_Nil)
  next
    case False
    then have ls: "leadingSpace (s @ [CHR 0x0D]) = leadingSpace s" by (rule leadingSpace_CR)
    show ?thesis
    proof (cases "leadingSpace s")
      case None
      with ls False show ?thesis
        by (subst TrimLeft.simps, subst (2 3) TrimLeft.simps) simp
    next
      case (Some e)
      then have "prefix e s" by (simp add: leadingSpace_prefix)
      then have "length e \<le> length s" by (rule prefix_length_le)
      then have d: "drop (length e) (s @ [CHR 0x0D]) = drop (length e) s @ [CHR 0x0D]"
        by simp
      from "1.IH" [OF Some] d ls Some show ?thesis
        by (subst TrimLeft.simps, subst (2 3) TrimLeft.simps) simp
    qed
  qed
qed

lemma suffix_single_snoc: "suffix [c] (s @ [d]) = (c = d)"
  using snoc_suffix_snoc [of "[]" c s d] by simp

lemma TrimRight_CR: "TrimRight (s @ [CHR 0x0D]) = TrimRight s"
proof -
  have "trailingSpace (s @ [CHR 0x0D]) = Some [CHR 0x0D]"
    by (simp add: trailingSpace_def spaceRunes_def suffix_single_snoc)
  then show ?thesis
    by (subst TrimRight.simps) simp
qed

lemma TrimSpace_CR: "TrimSpace (s @ [CHR 0x0D]) = TrimSpace s"
  by (simp add: TrimSpace_def TrimLeft_CR TrimRight_CR TrimRight_Nil)

lemma TrimSpace_dropCR: "TrimSpace (dropCR l) = TrimSpace l"
proof (cases "l \<noteq> [] \<and> last l = CHR 0x0D")
  case True
  then have "l = butlast l @ [CHR 0x0D]" by (metis append_butlast_last_id)
  then have "TrimSpace l = TrimSpace (butlast l)" by (metis TrimSpace_CR)
  with True show ?thesis by (simp add: dropCR_def)
next
  case False
  then show ?thesis by (auto simp: dropCR_def)
qed

text \<open>A trimmed string has no white space at either end, and trimming it again changes nothing.\<close>

lemma leadingSpace_TrimLeft: "leadingSpace (TrimLeft s) = None"
proof (induction s rule: TrimLeft.induct)
  case (1 s)
  show ?case
  proof (cases "leadingSpace s")
    case None
    then show ?thesis by (subst TrimLeft.simps) simp
  next
    case (Some e)
    with "1.IH" show ?thesis by (subst TrimLeft.simps) simp
  qed
qed

lemma trailingSpace_TrimRight: "trailingSpace (TrimRight s) = None"
proof (induction s rule: TrimRight.induct)
  case (1 s)
  show ?case
  proof (cases "trailingSpace s")
    case None
    then show ?thesis by (subst TrimRight.simps) simp
  next
    case (Some e)
    with "1.IH" show ?thesis by (subst TrimRight.simps) simp
  qed
qed

lemma prefix_TrimRight: "prefix (TrimRight s) s"
proof (induction s rule: TrimRight.induct)
  case (1 s)
  show ?case
  proof (cases "trailingSpace s")
    case None
    then show ?thesis by (subst TrimRight.simps) simp
  next
    case (Some e)
    from "1.IH" [OF Some] have "prefix (TrimRight (take (length s - length e) s)) s"
      by (rule prefix_order.trans) (rule take_is_prefix)
    with Some show ?thesis by (subst TrimRight.simps) simp
  qed
qed

lemma leadingSpace_None_prefix:
  assumes "leadingSpace t = None" and "prefix t' t"
  shows "leadingSpace t' = None"
proof -
  from assms(1) have "\<forall>e \<in> set spaceRunes. \<not> prefix e t"
    by (simp add: leadingSpace_def find_None_iff)
  with assms(2) have "\<forall>e \<in> set spaceRunes. \<not> prefix e t'"
    by (meson prefix_order.trans)
  then show ?thesis by (simp add: leadingSpace_def find_None_iff)
qed

lemma TrimLeft_id: "leadingSpace s = None \<Longrightarrow> TrimLeft s = s"
  by (subst TrimLeft.simps) simp

lemma TrimRight_id: "trailingSpace s = None \<Longrightarrow> TrimRight s = s"
  by (subst TrimRight.simps) simp

lemma TrimSpace_idem: "TrimSpace (TrimSpace s) = TrimSpace s"
proof -
  have "leadingSpace (TrimRight (TrimLeft s)) = None"
    using leadingSpace_TrimLeft prefix_TrimRight by (rule leadingSpace_None_prefix)
  then show ?thesis
    by (simp add: TrimSpace_def TrimLeft_id TrimRight_id trailingSpace_TrimRight)
qed

lemma readURLsFromFile_spec_urls:
  assumes "os_Open env filename = Inr file" and "read_error file = None"
    and "\<forall>l \<in> set (linesOf (contents file)). length l < maxTokenSize"
  shows "readURLsFromFile env filename = Inr (spec_urls (contents file))"
proof -
  from assms(3) have "scanLoop None (contents file) []
      = (filter spec_included (map (\<lambda>l. TrimSpace (dropCR l)) (linesOf (contents file))), None)"
    by (simp add: scanLoop_lines)
  then have "scanLoop None (contents file) [] = (spec_urls (contents file), None)"
    by (simp add: spec_urls_def TrimSpace_dropCR)
  with assms(1,2) show ?thesis
    by (simp add: readURLsFromFile_def)
qed

lemma spec_urls_trimmed:
  assumes "url \<in> set (spec_urls text)"
  shows "TrimSpace url = url \<and> url \<noteq> [] \<and> hd url \<noteq> CHR ''#''"
proof -
  from assms obtain l where "url = TrimSpace l" and "spec_included url"
    by (auto simp: spec_urls_def)
  then show ?thesis by (simp add: TrimSpace_idem spec_included_def)
qed

lemma linesOf_feedsFile:
  "linesOf feedsFile
   = [''# Test feeds'', ''  http://a.example/rss '' @ [CHR 0x0D], [],
      ''http://down.example/rss'', ''http://b.example/rss'']"
  by (simp add: feedsFile_def)

lemma spec_urls_feedsFile:
  "spec_urls feedsFile
   = [''http://a.example/rss'', ''http://down.example/rss'', ''http://b.example/rss'']"
  by code_simp

lemma readURLsFromFile_example:
  "readURLsFromFile exampleEnv ''feeds.txt''
   = Inr [''http://a.example/rss'', ''http://down.example/rss'', ''http://b.example/rss'']"
proof -
  have "os_Open exampleEnv ''feeds.txt'' = Inr \<lparr>contents = feedsFile, read_error = None\<rparr>"
    by (simp add: exampleEnv_def)
  moreover have "\<forall>l \<in> set (linesOf feedsFile). length l < maxTokenSize"
    by (simp add: linesOf_feedsFile maxTokenSize_def)
  ultimately have "readURLsFromFile exampleEnv ''feeds.txt'' = Inr (spec_urls feedsFile)"
    using readURLsFromFile_spec_urls [of exampleEnv "''feeds.txt''" "\<lparr>contents = feedsFile, read_error = None\<rparr>"]
    by simp
  then show ?thesis by (simp add: spec_urls_feedsFile)
qed

lemma readURLsFromFile_too_long:
  assumes "os_Open env filename = Inr file"
    and "\<exists>l \<in> set (linesOf (contents file)). maxTokenSize \<le> length l"
  shows "readURLsFromFile env filename = Inl (''error reading file: '' @ ErrTooLong)"
proof -
  from assms(2) have "snd (scanLoop (read_error file) (contents file) []) = Some ErrTooLong"
    by (rule scanLoop_long)
  with assms(1) show ?thesis
    by (auto simp: readURLsFromFile_def split: prod.splits option.splits)
qed

lemma linesOf_replicate:
  assumes "0 < n" and "c \<noteq> CHR 0x0A"
  shows "linesOf (replicate n c) = [replicate n c]"
proof -
  have "linesOf (replicate (Suc m) c) = [replicate (Suc m) c]" for m
    using assms(2) by (induction m) auto
  with assms(1) show ?thesis by (cases n) auto
qed

lemma TrimSpace_replicate_a: "TrimSpace (replicate n (CHR ''a'')) = replicate n (CHR ''a'')"
proof (cases n)
  case 0
  then show ?thesis by (simp add: TrimSpace_def TrimLeft_Nil TrimRight_Nil)
next
  case (Suc m)
  have "leadingSpace (replicate (Suc m) (CHR ''a'')) = None"
    by (simp add: leadingSpace_def spaceRunes_def)
  moreover have "rev (replicate (Suc m) (CHR ''a'')) = CHR ''a'' # replicate m (CHR ''a'')"
    by (simp add: replicate_append_same)
  then have "trailingSpace (replicate (Suc m) (CHR ''a'')) = None"
    unfolding trailingSpace_def suffix_to_prefix by (simp add: spaceRunes_def)
  ultimately show ?thesis
    by (simp add: Suc TrimSpace_def TrimLeft_id TrimRight_id del: replicate_Suc)
qed

text \<open>
  Claim C5, as amended. For a file that opens and is read without an error, and whose
  lines are each shorter than 65536 bytes (the buffer of the scanner),
  \<^verbatim>\<open>readURLsFromFile\<close> returns exactly the lines of the file that, trimmed, are not
  empty and do not start with \<^verbatim>\<open>#\<close>, each trimmed, in the order of the file. The
  result is determined by the contents of the file, so reading the same contents again
  gives the same list; and every URL returned is trimmed, not empty and not a comment.
\<close>

theorem readURLsFromFile_lines:
  assumes "os_Open env filename = Inr file" and "read_error file = None"
    and "\<forall>l \<in> set (linesOf (contents file)). length l < maxTokenSize"
  shows "readURLsFromFile env filename = Inr (spec_urls (contents file))
       \<and> (\<forall>url \<in> set (spec_urls (contents file)).
             TrimSpace url = url \<and> url \<noteq> [] \<and> hd url \<noteq> CHR ''#'')"
  using readURLsFromFile_spec_urls [OF assms] spec_urls_trimmed by blast

theorem readURLsFromFile_lines_witness:
  "os_Open exampleEnv ''feeds.txt'' = Inr \<lparr>contents = feedsFile, read_error = None\<rparr>
   \<and> list_all (\<lambda>l. length l < maxTokenSize) (linesOf feedsFile)
   \<and> readURLsFromFile exampleEnv ''feeds.txt''
       = Inr [''http://a.example/rss'', ''http://down.example/rss'', ''http://b.example/rss'']"
proof -
  have o: "os_Open exampleEnv ''feeds.txt'' = Inr \<lparr>contents = feedsFile, read_error = None\<rparr>"
    by (simp add: exampleEnv_def)
  have r: "read_error \<lparr>contents = feedsFile, read_error = None\<rparr> = None"
    by simp
  have s: "\<forall>l \<in> set (linesOf (contents \<lparr>contents = feedsFile, read_error = None\<rparr>)).
      length l < maxTokenSize"
    by (simp add: linesOf_feedsFile maxTokenSize_def)
  then have s': "list_all (\<lambda>l. length l < maxTokenSize) (linesOf feedsFile)"
    by (simp add: list_all_iff)
  from readURLsFromFile_lines [OF o r s] o s' show ?thesis
    by (simp add: spec_urls_feedsFile)
qed

text \<open>
  Claim C5 as stated speaks of every readable file. A file of one line of 65536 bytes
  opens and is read without an error, and its line is neither blank nor a comment: the
  claim has the line returned, but \<^verbatim>\<open>readURLsFromFile\<close> returns the scanner's error
  and no list.
\<close>

theorem readURLsFromFile_lines_counterexample:
  "os_Open exampleEnv ''long.txt''
     = Inr \<lparr>contents = replicate (64 * 1024) (CHR ''a''), read_error = None\<rparr>
   \<and> spec_urls (replicate (64 * 1024) (CHR ''a'')) = [replicate (64 * 1024) (CHR ''a'')]
   \<and> readURLsFromFile exampleEnv ''long.txt''
       = Inl ''error reading file: bufio.Scanner: token too long''"
proof -
  let ?text = "replicate (64 * 1024) (CHR ''a'')"
  have o: "os_Open exampleEnv ''long.txt'' = Inr \<lparr>contents = ?text, read_error = None\<rparr>"
    by (simp add: exampleEnv_def)
  have "linesOf ?text = [?text]"
    by (rule linesOf_replicate) simp_all
  then have u: "spec_urls ?text = [?text]"
    by (simp add: spec_urls_def TrimSpace_replicate_a spec_included_def)
  have "maxTokenSize \<le> length (takeWhile (\<lambda>c. c \<noteq> CHR 0x0A) ?text)"
    by (simp add: maxTokenSize_def)
  then have "Scan None ?text = Stop (Some ErrTooLong)"
    by (rule Scan_long)
  then have "scanLoop None ?text [] = ([], Some ErrTooLong)"
    by (subst scanLoop.simps) simp
  with o have "readURLsFromFile exampleEnv ''long.txt''
      = Inl ''error reading file: bufio.Scanner: token too long''"
    by (simp add: readURLsFromFile_def ErrTooLong_def)
  with o u show ?thesis by simp
qed

subsection \<open>Aggregating\<close>

text \<open>Sorting and truncating: the first items of a sorted permutation are the most recent.\<close>

lemma not_lessCreated: "(\<not> lessCreated b a) = (Created b \<le> Created a)"
  by (auto simp: lessCreated_def After_def)

lemma Items_sortAndTruncate:
  assumes "sortAndTruncate env c xs = Inr feed"
  shows "Items feed = take (nat (Count c)) (sort_Slice env lessCreated xs)"
  using assms by (auto simp: sortAndTruncate_def Let_def split: if_splits)

lemma sortAndTruncate_returns:
  assumes "0 \<le> Count c"
  shows "\<exists>feed. sortAndTruncate env c xs = Inr feed"
  using assms by (auto simp: sortAndTruncate_def Let_def)

lemma take_sorted_top:
  assumes perm: "mset ys = mset xs"
    and sorted: "sorted_wrt (\<lambda>a b. Created b \<le> Created a) ys"
  shows "length (take k ys) = min (length xs) k"
    and "mset (take k ys) \<subseteq># mset xs"
    and "\<forall>y \<in># mset xs - mset (take k ys). \<forall>x \<in> set (take k ys). Created y \<le> Created x"
    and "sorted_wrt (\<lambda>a b. Created b \<le> Created a) (take k ys)"
proof -
  from perm have "length ys = length xs" by (rule mset_eq_length)
  then show "length (take k ys) = min (length xs) k" by simp
  have split: "mset xs = mset (take k ys) + mset (drop k ys)"
    unfolding perm [symmetric] by (metis append_take_drop_id mset_append)
  then show "mset (take k ys) \<subseteq># mset xs" by simp
  from sorted have "sorted_wrt (\<lambda>a b. Created b \<le> Created a) (take k ys @ drop k ys)"
    by simp
  then have app: "sorted_wrt (\<lambda>a b. Created b \<le> Created a) (take k ys)
      \<and> (\<forall>x \<in> set (take k ys). \<forall>y \<in> set (drop k ys). Created y \<le> Created x)"
    unfolding sorted_wrt_append by blast
  from app show "sorted_wrt (\<lambda>a b. Created b \<le> Created a) (take k ys)" by blast
  from split have "mset xs - mset (take k ys) = mset (drop k ys)" by simp
  with app show "\<forall>y \<in># mset xs - mset (take k ys). \<forall>x \<in> set (take k ys). Created y \<le> Created x"
    by simp
qed

text \<open>
  The fan-out leaves the warnings and the items of its goroutines, in the order of the
  schedule; as multisets they do not depend on the schedule.
\<close>

lemma goroutines_effects:
  "goroutines env ts (lg, allItems) = (lg @ warningsOf env ts, allItems @ fetchedOf env ts)"
proof (induction ts arbitrary: lg allItems)
  case Nil
  then show ?case by (simp add: warningsOf_def fetchedOf_def)
next
  case (Cons t ts)
  obtain n url where t: "t = (n, url)" by (cases t)
  show ?case
  proof (cases "fetchFeedItems env n (TrimSpace url)")
    case (Inl err)
    with Cons.IH show ?thesis by (simp add: t warningsOf_def fetchedOf_def)
  next
    case (Inr items)
    with Cons.IH show ?thesis by (simp add: t warningsOf_def fetchedOf_def)
  qed
qed

lemma mset_concat_map_perm:
  assumes "mset ts = mset ts'"
  shows "mset (concat (map f ts)) = mset (concat (map f ts'))"
proof -
  have "mset (concat (map f us)) = sum_mset (image_mset (\<lambda>t. mset (f t)) (mset us))" for us
    by (induction us) auto
  with assms show ?thesis by simp
qed

lemma mset_fetchedOf_perm: "mset ts = mset ts' \<Longrightarrow> mset (fetchedOf env ts) = mset (fetchedOf env ts')"
  unfolding fetchedOf_def by (rule mset_concat_map_perm)

lemma mset_warningsOf_perm: "mset ts = mset ts' \<Longrightarrow> mset (warningsOf env ts) = mset (warningsOf env ts')"
  unfolding warningsOf_def by (rule mset_concat_map_perm)

lemma fetchedOf_all_fail:
  assumes "\<forall>(n, url) \<in> set ts. \<exists>err. fetchFeedItems env n (TrimSpace url) = Inl err"
  shows "fetchedOf env ts = []"
  using assms by (induction ts) (auto simp: fetchedOf_def)

lemma warning_in_warningsOf:
  assumes "(n, url) \<in> set ts" and "fetchFeedItems env n (TrimSpace url) = Inl err"
  shows "warning url err \<in> set (warningsOf env ts)"
  using assms by (force simp: warningsOf_def)

lemma sublist_warning: "sublist url (warning url err)"
  unfolding warning_def by (rule sublist_appendI)

text \<open>The whole of \<^verbatim>\<open>aggregateFeeds\<close>.\<close>

lemma aggregateFeeds_all:
  assumes "Mode c \<noteq> ''single''" and "readURLsFromFile env (InputFile c) = Inr urls"
  shows "aggregateFeeds env c
    = (warningsOf env (schedule env (enumerate 0 urls)),
       sortAndTruncate env c (fetchedOf env (schedule env (enumerate 0 urls))))"
  using assms by (simp add: aggregateFeeds_def goroutines_effects)



text \<open>
  The example run: insertion sort meets what is known of \<^verbatim>\<open>sort.Slice\<close>, and the
  run in mode \<^verbatim>\<open>all\<close> is computed.
\<close>

lemma mset_insertBy: "mset (insertBy lt x ys) = add_mset x (mset ys)"
  by (induction ys) auto

lemma mset_insertionSort: "mset (insertionSort lt xs) = mset xs"
  by (induction xs) (auto simp: mset_insertBy)

lemma set_insertBy: "set (insertBy lt x ys) = insert x (set ys)"
  by (induction ys) auto

lemma sorted_insertBy:
  "sorted_wrt (\<lambda>a b. Created b \<le> Created a) ys
   \<Longrightarrow> sorted_wrt (\<lambda>a b. Created b \<le> Created a) (insertBy lessCreated x ys)"
  by (induction ys) (auto simp: set_insertBy lessCreated_def After_def)

lemma sorted_insertionSort:
  "sorted_wrt (\<lambda>a b. Created b \<le> Created a) (insertionSort lessCreated xs)"
  by (induction xs) (auto simp: sorted_insertBy)

lemma exampleEnv_sorts: "sort_Slice_sorts exampleEnv"
  by (simp add: sort_Slice_sorts_def exampleEnv_def mset_insertionSort not_lessCreated
      sorted_insertionSort)

lemma exampleEnv_permutes: "schedule_permutes exampleEnv"
  by (simp add: schedule_permutes_def exampleEnv_def)

lemma TrimSpace_example:
  "TrimSpace ''http://a.example/rss'' = ''http://a.example/rss''"
  "TrimSpace ''http://down.example/rss'' = ''http://down.example/rss''"
  "TrimSpace ''http://b.example/rss'' = ''http://b.example/rss''"
  by code_simp+

lemma fetchFeedItems_example:
  "fetchFeedItems exampleEnv n ''http://a.example/rss'' = Inr [itemA1, itemA2]"
  "fetchFeedItems exampleEnv n ''http://b.example/rss'' = Inr [itemB1]"
  "fetchFeedItems exampleEnv n ''http://down.example/rss'' = Inl ''connection refused''"
  by (simp_all add: fetchFeedItems_def exampleEnv_def feedItem_def entryA1_def entryA2_def
      entryB1_def itemA1_def itemA2_def itemB1_def)

lemma enumerate_example:
  "enumerate 0 [''http://a.example/rss'', ''http://down.example/rss'', ''http://b.example/rss'']
   = [(0, ''http://a.example/rss''), (1, ''http://down.example/rss''), (2, ''http://b.example/rss'')]"
  by (simp add: enumerate_eq_zip upt_rec)

lemma fetchedOf_example:
  "fetchedOf exampleEnv
     [(i, ''http://a.example/rss''), (j, ''http://down.example/rss''), (k, ''http://b.example/rss'')]
   = [itemA1, itemA2, itemB1]"
  "fetchedOf exampleEnv
     [(k, ''http://b.example/rss''), (j, ''http://down.example/rss''), (i, ''http://a.example/rss'')]
   = [itemB1, itemA1, itemA2]"
  by (simp_all add: fetchedOf_def TrimSpace_example fetchFeedItems_example)

lemma warningsOf_example:
  "warningsOf exampleEnv
     [(i, ''http://a.example/rss''), (j, ''http://down.example/rss''), (k, ''http://b.example/rss'')]
   = [''Warning: failed to fetch feed http://down.example/rss: connection refused'']"
  "warningsOf exampleEnv
     [(k, ''http://b.example/rss''), (j, ''http://down.example/rss''), (i, ''http://a.example/rss'')]
   = [''Warning: failed to fetch feed http://down.example/rss: connection refused'']"
  by (simp_all add: warningsOf_def TrimSpace_example fetchFeedItems_example warning_def)

lemma sort_example:
  "sort_Slice exampleEnv lessCreated [itemB1, itemA1, itemA2] = [itemA2, itemB1, itemA1]"
  by (simp add: exampleEnv_def lessCreated_def After_def itemA1_def itemA2_def itemB1_def)

lemma aggregateFeeds_example:
  assumes "0 \<le> k"
  shows "aggregateFeeds exampleEnv (exampleConfig ''all'' [] k)
   = ([''Warning: failed to fetch feed http://down.example/rss: connection refused''],
      Inr \<lparr>Feed_Title = ''RSS Aggregator Feed'', Feed_Link = \<lparr>Href = []\<rparr>,
           Feed_Description = ''Aggregated RSS feed'', Feed_Created = 20200201,
           Items = take (nat k) [itemA2, itemB1, itemA1]\<rparr>)"
proof -
  have m: "Mode (exampleConfig ''all'' [] k) \<noteq> ''single''"
    by (simp add: exampleConfig_def)
  have r: "readURLsFromFile exampleEnv (InputFile (exampleConfig ''all'' [] k))
    = Inr [''http://a.example/rss'', ''http://down.example/rss'', ''http://b.example/rss'']"
    by (simp add: exampleConfig_def readURLsFromFile_example)
  have s: "schedule exampleEnv ts = rev ts" for ts
    by (simp add: exampleEnv_def)
  have now: "time_Now exampleEnv = 20200201"
    by (simp add: exampleEnv_def)
  have "sortAndTruncate exampleEnv (exampleConfig ''all'' [] k) [itemB1, itemA1, itemA2]
    = Inr \<lparr>Feed_Title = ''RSS Aggregator Feed'', Feed_Link = \<lparr>Href = []\<rparr>,
           Feed_Description = ''Aggregated RSS feed'', Feed_Created = 20200201,
           Items = take (nat k) [itemA2, itemB1, itemA1]\<rparr>"
    using assms now
    by (auto simp: sortAndTruncate_def sort_example exampleConfig_def Let_def)
  then show ?thesis
    unfolding aggregateFeeds_all [OF m r]
    by (simp add: enumerate_example s fetchedOf_example warningsOf_example)
qed


lemma aggregateFeeds_exampleFeed:
  "0 \<le> k \<Longrightarrow> aggregateFeeds exampleEnv (exampleConfig ''all'' [] k) = (exampleLog, Inr (exampleFeed k))"
  by (simp add: aggregateFeeds_example exampleFeed_def exampleLog_def)

lemma aggregateFeeds_sorted_input:
  assumes "aggregateFeeds env c = (lg, Inr feed)"
  shows "\<exists>xs. sortAndTruncate env c xs = Inr feed"
  using assms
  by (auto simp: aggregateFeeds_def goroutines_effects split: if_splits sum.splits)



text \<open>
  Claim C2. The items of a feed returned by \<^verbatim>\<open>aggregateFeeds\<close> are sorted by their
  created time, latest first: each item is created no earlier than the next one.
\<close>

theorem aggregateFeeds_sorted:
  assumes "sort_Slice_sorts env"
    and "aggregateFeeds env c = (lg, Inr feed)"
  shows "sorted_wrt (\<lambda>a b. Created a \<ge> Created b) (Items feed)
       \<and> (\<forall>i. Suc i < length (Items feed)
             \<longrightarrow> Created (Items feed ! i) \<ge> Created (Items feed ! Suc i))"
proof -
  from aggregateFeeds_sorted_input [OF assms(2)] obtain xs where
    "sortAndTruncate env c xs = Inr feed" by blast
  then have items: "Items feed = take (nat (Count c)) (sort_Slice env lessCreated xs)"
    by (rule Items_sortAndTruncate)
  from assms(1) have "sorted_wrt (\<lambda>a b. \<not> lessCreated b a) (sort_Slice env lessCreated xs)"
    by (simp add: sort_Slice_sorts_def)
  then have "sorted_wrt (\<lambda>a b. Created a \<ge> Created b) (sort_Slice env lessCreated xs)"
    by (simp add: not_lessCreated)
  then have s: "sorted_wrt (\<lambda>a b. Created a \<ge> Created b) (Items feed)"
    unfolding items by (rule sorted_wrt_take)
  then have "Created (Items feed ! i) \<ge> Created (Items feed ! Suc i)"
    if "Suc i < length (Items feed)" for i
    using sorted_wrt_nth_less [OF s, of i "Suc i"] that by simp
  with s show ?thesis by blast
qed

theorem aggregateFeeds_sorted_witness:
  "sort_Slice_sorts exampleEnv
   \<and> aggregateFeeds exampleEnv (exampleConfig ''all'' [] 5) = (exampleLog, Inr (exampleFeed 5))
   \<and> Items (exampleFeed 5) = [itemA2, itemB1, itemA1]
   \<and> sorted_wrt (\<lambda>a b. Created a \<ge> Created b) (Items (exampleFeed 5))
   \<and> Created itemA2 \<ge> Created itemB1 \<and> Created itemB1 \<ge> Created itemA1"
proof -
  have run: "aggregateFeeds exampleEnv (exampleConfig ''all'' [] 5) = (exampleLog, Inr (exampleFeed 5))"
    by (simp add: aggregateFeeds_exampleFeed)
  have items: "Items (exampleFeed 5) = [itemA2, itemB1, itemA1]"
    by (simp add: exampleFeed_def)
  from aggregateFeeds_sorted [OF exampleEnv_sorts run]
  have s: "sorted_wrt (\<lambda>a b. Created a \<ge> Created b) (Items (exampleFeed 5))"
    and adj: "Suc i < length (Items (exampleFeed 5))
      \<Longrightarrow> Created (Items (exampleFeed 5) ! i) \<ge> Created (Items (exampleFeed 5) ! Suc i)" for i
    by blast+
  from adj [of 0] adj [of 1]
  have "Created itemA2 \<ge> Created itemB1 \<and> Created itemB1 \<ge> Created itemA1"
    unfolding items by simp
  with exampleEnv_sorts run items s show ?thesis by blast
qed

text \<open>
  Claim C3. For a valid configuration in mode \<^verbatim>\<open>all\<close> whose input file is read,
  \<^verbatim>\<open>aggregateFeeds\<close> returns a feed whatever fetches fail: each fetch that fails is
  logged as a warning that contains its URL, and the feed holds the items of the fetches
  that succeeded, sorted and cut to the count; when every fetch fails the feed is empty.
\<close>

theorem aggregateFeeds_all_tolerates_failures:
  assumes "sort_Slice_sorts env" and "schedule_permutes env"
    and "validateConfig c = None" and "Mode c = ''all''"
    and "readURLsFromFile env (InputFile c) = Inr urls"
  shows "\<exists>lg feed. aggregateFeeds env c = (lg, Inr feed)
       \<and> mset lg = mset (warningsOf env (enumerate 0 urls))
       \<and> (\<forall>(n, url) \<in> set (enumerate 0 urls). \<forall>err.
             fetchFeedItems env n (TrimSpace url) = Inl err
             \<longrightarrow> warning url err \<in> set lg \<and> sublist url (warning url err))
       \<and> Items feed = take (nat (Count c))
             (sort_Slice env lessCreated (fetchedOf env (schedule env (enumerate 0 urls))))
       \<and> mset (Items feed) \<subseteq># mset (fetchedOf env (enumerate 0 urls))
       \<and> length (Items feed) \<le> nat (Count c)
       \<and> length (Items feed) \<le> length (fetchedOf env (enumerate 0 urls))
       \<and> ((\<forall>(n, url) \<in> set (enumerate 0 urls).
               \<exists>err. fetchFeedItems env n (TrimSpace url) = Inl err)
            \<longrightarrow> Items feed = [])"
proof -
  let ?ts = "enumerate 0 urls"
  let ?xs = "fetchedOf env (schedule env ?ts)"
  let ?ys = "sort_Slice env lessCreated ?xs"
  from assms(4) have m: "Mode c \<noteq> ''single''" by simp
  from assms(3) have "0 \<le> Count c"
    by (auto simp: validateConfig_def split: if_splits option.splits)
  then obtain feed where st: "sortAndTruncate env c ?xs = Inr feed"
    using sortAndTruncate_returns by blast
  then have items: "Items feed = take (nat (Count c)) ?ys"
    by (rule Items_sortAndTruncate)
  have run: "aggregateFeeds env c = (warningsOf env (schedule env ?ts), Inr feed)"
    using aggregateFeeds_all [OF m assms(5)] st by simp
  from assms(2) have perm: "mset (schedule env ?ts) = mset ?ts"
    by (simp add: schedule_permutes_def)
  then have lg: "mset (warningsOf env (schedule env ?ts)) = mset (warningsOf env ?ts)"
    by (rule mset_warningsOf_perm)
  from perm have xs: "mset ?xs = mset (fetchedOf env ?ts)"
    by (rule mset_fetchedOf_perm)
  from assms(1) have ys: "mset ?ys = mset (fetchedOf env ?ts)"
    "sorted_wrt (\<lambda>a b. Created b \<le> Created a) ?ys"
    by (simp_all add: sort_Slice_sorts_def xs not_lessCreated)
  have warn: "warning url err \<in> set (warningsOf env (schedule env ?ts)) \<and> sublist url (warning url err)"
    if "(n, url) \<in> set ?ts" and "fetchFeedItems env n (TrimSpace url) = Inl err" for n url err
  proof -
    from that have "warning url err \<in> set (warningsOf env ?ts)"
      by (rule warning_in_warningsOf)
    with lg have "warning url err \<in> set (warningsOf env (schedule env ?ts))"
      by (metis set_mset_mset)
    then show ?thesis by (simp add: sublist_warning)
  qed
  have empty: "Items feed = []"
    if "\<forall>(n, url) \<in> set ?ts. \<exists>err. fetchFeedItems env n (TrimSpace url) = Inl err"
  proof -
    from that have "fetchedOf env ?ts = []" by (rule fetchedOf_all_fail)
    with ys(1) have "?ys = []" by simp
    with items show ?thesis by simp
  qed
  from take_sorted_top(1,2) [OF ys, of "nat (Count c)"] items
  have "mset (Items feed) \<subseteq># mset (fetchedOf env ?ts)"
    and "length (Items feed) \<le> nat (Count c)"
    and "length (Items feed) \<le> length (fetchedOf env ?ts)"
    by simp_all
  with run lg warn items empty show ?thesis
    by (intro exI [of _ "warningsOf env (schedule env ?ts)"] exI [of _ feed]) blast
qed

theorem aggregateFeeds_all_tolerates_failures_witness:
  "sort_Slice_sorts exampleEnv \<and> schedule_permutes exampleEnv
   \<and> validateConfig (exampleConfig ''all'' [] 1) = None
   \<and> Mode (exampleConfig ''all'' [] 1) = ''all''
   \<and> readURLsFromFile exampleEnv (InputFile (exampleConfig ''all'' [] 1))
       = Inr [''http://a.example/rss'', ''http://down.example/rss'', ''http://b.example/rss'']
   \<and> fetchFeedItems exampleEnv 1 (TrimSpace ''http://down.example/rss'') = Inl ''connection refused''
   \<and> (\<exists>lg feed. aggregateFeeds exampleEnv (exampleConfig ''all'' [] 1) = (lg, Inr feed)
         \<and> warning ''http://down.example/rss'' ''connection refused'' \<in> set lg
         \<and> length (Items feed) \<le> 1)"
proof -
  let ?c = "exampleConfig ''all'' [] 1"
  have v: "validateConfig ?c = None"
    by (simp add: validateConfig_def exampleConfig_def)
  have m: "Mode ?c = ''all''"
    by (simp add: exampleConfig_def)
  have r: "readURLsFromFile exampleEnv (InputFile ?c)
      = Inr [''http://a.example/rss'', ''http://down.example/rss'', ''http://b.example/rss'']"
    by (simp add: exampleConfig_def readURLsFromFile_example)
  have f: "fetchFeedItems exampleEnv 1 (TrimSpace ''http://down.example/rss'') = Inl ''connection refused''"
    by (simp add: TrimSpace_example fetchFeedItems_example)
  have n: "nat (Count ?c) = 1"
    by (simp add: exampleConfig_def)
  have e: "(1, ''http://down.example/rss'')
      \<in> set (enumerate 0 [''http://a.example/rss'', ''http://down.example/rss'', ''http://b.example/rss''])"
    by (simp add: enumerate_example)
  from aggregateFeeds_all_tolerates_failures [OF exampleEnv_sorts exampleEnv_permutes v m r]
  obtain lg feed where
    "aggregateFeeds exampleEnv ?c = (lg, Inr feed)"
    "\<forall>(n, url) \<in> set (enumerate 0 [''http://a.example/rss'', ''http://down.example/rss'', ''http://b.example/rss'']).
       \<forall>err. fetchFeedItems exampleEnv n (TrimSpace url) = Inl err
         \<longrightarrow> warning url err \<in> set lg \<and> sublist url (warning url err)"
    "length (Items feed) \<le> nat (Count ?c)"
    by blast
  with e f n have "aggregateFeeds exampleEnv ?c = (lg, Inr feed)
      \<and> warning ''http://down.example/rss'' ''connection refused'' \<in> set lg
      \<and> length (Items feed) \<le> 1"
    by fastforce
  with exampleEnv_sorts exampleEnv_permutes v m r f show ?thesis by blast
qed

end
